theory Spec2Isabelle
  imports Main "HOL-Library.Word"
begin

section \<open>Row execution of the Avro deserializer (AvroRowInputFormat.h)\<close>

subsection \<open>Exceptions\<close>

text \<open>
  The header declares one error code, \<open>ErrorCodes::INCORRECT_DATA\<close>.  The decode and skip
  operations bound into an action, and the decoder itself, are foreign code and may throw
  anything: a \<open>DB::Exception\<close> with some code, or an exception of another library.
\<close>

datatype ErrorCodes = INCORRECT_DATA | OTHER_CODE nat

datatype thrown =
    Exception string ErrorCodes
  | Foreign_Exception string

subsection \<open>The state an action works on\<close>

text \<open>
  \<open>execute\<close> receives three references: the mutable columns, the decoder (the cursor)
  and the row extension.  \<open>RowReadExtension\<close> carries one flag per column, set for the
  columns that were read from the source in this row.
\<close>

record RowReadExtension =
  read_columns :: "bool list"

record ('col, 'dec) Env =
  columns :: "'col list"
  decoder :: 'dec
  ext :: RowReadExtension

text \<open>
  A call either returns, or throws (every mutation made before the throw stays), or
  indexes a vector out of range, which C++ leaves undefined.
\<close>

datatype ('col, 'dec) outcome =
    Returned "('col, 'dec) Env"
  | Thrown thrown "('col, 'dec) Env"
  | Undefined_Behaviour

text \<open>
  \<open>DeserializeFn = std::function<void(IColumn &, avro::Decoder &)>\<close> and
  \<open>SkipFn = std::function<void(avro::Decoder &)>\<close>: they update what they are handed and
  may throw.
\<close>

type_synonym ('col, 'dec) DeserializeFn = "'col \<Rightarrow> 'dec \<Rightarrow> thrown option \<times> 'col \<times> 'dec"

type_synonym 'dec SkipFn = "'dec \<Rightarrow> thrown option \<times> 'dec"

text \<open>
  \<open>avro::Decoder::decodeUnionIndex\<close> is a virtual method of the decoder interface: it
  advances the cursor and yields a \<open>size_t\<close>, or throws.
\<close>

type_synonym 'dec DecodeUnionIndex = "'dec \<Rightarrow> (thrown + 64 word) \<times> 'dec"

subsection \<open>Actions\<close>

text \<open>
  \<open>struct Action\<close> is a hand-written tagged union over
  \<open>enum Type {Noop, Deserialize, Skip, Record, Union}\<close>.  Its constructors are the only
  way to build one: \<open>Action()\<close>, \<open>Action(int, DeserializeFn)\<close>, \<open>Action(SkipFn)\<close>,
  \<open>recordAction\<close> and \<open>unionAction\<close>; the last two give the tags \<open>Record\<close> and \<open>Union\<close>.
  \<open>target_column_idx\<close> is a C++ \<open>int\<close>.
\<close>

datatype ('col, 'dec) Action =
    Noop
  | Deserialize "32 word" "('col, 'dec) DeserializeFn"
  | Skip "'dec SkipFn"
  | recordAction "('col, 'dec) Action list"
  | unionAction "('col, 'dec) Action list"

text \<open>
  \<open>operator[]\<close> of a vector takes a \<open>size_t\<close>; the \<open>int\<close> index is converted to it, so a
  negative index becomes a huge one.
\<close>

definition to_size_t :: "32 word \<Rightarrow> nat" where
  "to_size_t i = nat (sint i mod 2 ^ 64)"

text \<open>
  \<open>Action::execute\<close>.  The \<open>for\<close> loop of the \<open>Record\<close> case is \<open>execute_each\<close>; an
  exception leaves the loop.
\<close>

function (sequential) execute :: "'dec DecodeUnionIndex \<Rightarrow> ('col, 'dec) Action \<Rightarrow> ('col, 'dec) Env \<Rightarrow> ('col, 'dec) outcome"
  and execute_each :: "'dec DecodeUnionIndex \<Rightarrow> ('col, 'dec) Action list \<Rightarrow> ('col, 'dec) Env \<Rightarrow> ('col, 'dec) outcome"
where
  "execute decodeUnionIndex Noop env = Returned env"
| "execute decodeUnionIndex (Deserialize target_column_idx deserialize_fn) env =
     (if length (columns env) \<le> to_size_t target_column_idx then Undefined_Behaviour
      else
        (case deserialize_fn (columns env ! to_size_t target_column_idx) (decoder env) of
           (Some e, c, d) \<Rightarrow>
             Thrown e (env\<lparr>columns := (columns env)[to_size_t target_column_idx := c], decoder := d\<rparr>)
         | (None, c, d) \<Rightarrow>
             (if length (read_columns (ext env)) \<le> to_size_t target_column_idx then Undefined_Behaviour
              else Returned (env\<lparr>columns := (columns env)[to_size_t target_column_idx := c],
                                  decoder := d,
                                  ext := (ext env)\<lparr>read_columns :=
                                    (read_columns (ext env))[to_size_t target_column_idx := True]\<rparr>\<rparr>))))"
| "execute decodeUnionIndex (Skip skip_fn) env =
     (case skip_fn (decoder env) of
        (Some e, d) \<Rightarrow> Thrown e (env\<lparr>decoder := d\<rparr>)
      | (None, d) \<Rightarrow> Returned (env\<lparr>decoder := d\<rparr>))"
| "execute decodeUnionIndex (recordAction actions) env = execute_each decodeUnionIndex actions env"
| "execute decodeUnionIndex (unionAction actions) env =
     (case decodeUnionIndex (decoder env) of
        (Inl e, d) \<Rightarrow> Thrown e (env\<lparr>decoder := d\<rparr>)
      | (Inr index, d) \<Rightarrow>
          (if unat index \<ge> length actions
           then Thrown (Exception ''Union index out of boundary'' INCORRECT_DATA) (env\<lparr>decoder := d\<rparr>)
           else execute decodeUnionIndex (actions ! unat index) (env\<lparr>decoder := d\<rparr>)))"
| "execute_each decodeUnionIndex [] env = Returned env"
| "execute_each decodeUnionIndex (action # actions) env =
     (case execute decodeUnionIndex action env of
        Returned env' \<Rightarrow> execute_each decodeUnionIndex actions env'
      | Thrown e env' \<Rightarrow> Thrown e env'
      | Undefined_Behaviour \<Rightarrow> Undefined_Behaviour)"
  by pat_completeness auto

termination
  by (relation "measure (\<lambda>p. case p of
          Inl (decodeUnionIndex, a, env) \<Rightarrow> size a
        | Inr (decodeUnionIndex, as, env) \<Rightarrow> size_list size as)")
     (auto simp: not_le less_Suc_eq_le intro!: size_list_estimation' [OF nth_mem])

subsection \<open>Notions used to state the properties of \<open>execute\<close>\<close>

text \<open>The environment a defined execution ends in, whether it returned or threw.\<close>

fun final_env :: "('col, 'dec) outcome \<Rightarrow> ('col, 'dec) Env option" where
  "final_env (Returned env) = Some env"
| "final_env (Thrown e env) = Some env"
| "final_env Undefined_Behaviour = None"

text \<open>
  What "each child once, in the stored order" means, written without the loop: the outcome
  after the children at positions \<open>0, \<dots>, k - 1\<close> have been executed one after the other.
  Child \<open>k\<close> runs on the environment its predecessors left, and nothing runs after a throw.
\<close>

fun execute_upto ::
  "'dec DecodeUnionIndex \<Rightarrow> ('col, 'dec) Action list \<Rightarrow> nat \<Rightarrow> ('col, 'dec) Env \<Rightarrow> ('col, 'dec) outcome"
where
  "execute_upto decodeUnionIndex actions 0 env = Returned env"
| "execute_upto decodeUnionIndex actions (Suc k) env =
     (case execute_upto decodeUnionIndex actions k env of
        Returned env' \<Rightarrow> execute decodeUnionIndex (actions ! k) env'
      | Thrown e env' \<Rightarrow> Thrown e env'
      | Undefined_Behaviour \<Rightarrow> Undefined_Behaviour)"

text \<open>
  A list of skip operations applied to a decoder one after the other, each once, in list
  order; the first one that throws ends it.  It is written on the operations alone and
  does not mention \<open>execute\<close>.
\<close>

fun skip_each :: "'dec SkipFn list \<Rightarrow> 'dec \<Rightarrow> thrown option \<times> 'dec" where
  "skip_each [] d = (None, d)"
| "skip_each (skip_fn # skip_fns) d =
     (case skip_fn d of
        (Some e, d') \<Rightarrow> (Some e, d')
      | (None, d') \<Rightarrow> skip_each skip_fns d')"



section \<open>The deserializer cache of the Confluent reader\<close>

text \<open>
  \<open>AvroConfluentRowInputFormat\<close> declares \<open>using SchemaId = uint32_t\<close> and, as a private
  member of each reader object, \<open>std::unordered_map<SchemaId, AvroDeserializer>
  deserializer_cache\<close>.  The record keeps this member.  \<open>compiled\<close> is not a member of the
  class: it is the history of the schema identifiers for which this reader had a
  deserializer compiled, kept so that compilations can be counted.
\<close>

type_synonym SchemaId = "32 word"

record 'plan AvroConfluentRowInputFormat =
  deserializer_cache :: "SchemaId \<rightharpoonup> 'plan"
  compiled :: "SchemaId list"

text \<open>A reader object as its constructor leaves it: the member map starts empty.\<close>

definition new_reader :: "'plan AvroConfluentRowInputFormat" where
  "new_reader = \<lparr>deserializer_cache = Map.empty, compiled = []\<rparr>"

text \<open>
  Modelled from the spec: the body of \<open>AvroConfluentRowInputFormat::getOrCreateDeserializer\<close>,
  which the header only declares.  Section 4.4 of the specification: the per-reader memo
  from schema identifier to compiled Plan "avoids recompiling a Plan for an identifier
  already seen by this reader instance"; the registry with its schema memo is the parameter
  \<open>getSchema\<close>.  An identifier found in the cache yields the
  cached Plan.  Otherwise the schema is asked of the registry and compiled
  (\<open>compile\<close>, the constructor of \<open>AvroDeserializer\<close> for this reader's header and
  settings); both may fail, the failure goes to the caller and nothing is stored; a
  compiled Plan is stored under the identifier and returned.
\<close>

definition getOrCreateDeserializer ::
  "(SchemaId \<Rightarrow> thrown + 'schema) \<Rightarrow> ('schema \<Rightarrow> thrown + 'plan) \<Rightarrow> SchemaId \<Rightarrow>
   'plan AvroConfluentRowInputFormat \<Rightarrow> (thrown + 'plan) \<times> 'plan AvroConfluentRowInputFormat"
where
  "getOrCreateDeserializer getSchema compile schema_id reader =
     (case deserializer_cache reader schema_id of
        Some plan \<Rightarrow> (Inr plan, reader)
      | None \<Rightarrow>
          (case getSchema schema_id of
             Inl e \<Rightarrow> (Inl e, reader)
           | Inr schema \<Rightarrow>
               (case compile schema of
                  Inl e \<Rightarrow> (Inl e, reader)
                | Inr plan \<Rightarrow>
                    (Inr plan,
                     reader\<lparr>deserializer_cache := (deserializer_cache reader)(schema_id \<mapsto> plan),
                            compiled := compiled reader @ [schema_id]\<rparr>))))"

text \<open>
  Modelled from the spec: the read loop of section 4.4, as far as the cache is concerned.
  One reader meets the schema identifiers of its messages one after the other and looks
  each one up; a message whose lookup fails is reported and the reader goes on.  The
  registry is outside the reader and may answer differently from one message to the next
  (unavailable now, available later), so each message comes with the registry as it
  answers at that moment.
\<close>

fun read_messages ::
  "('schema \<Rightarrow> thrown + 'plan) \<Rightarrow> ((SchemaId \<Rightarrow> thrown + 'schema) \<times> SchemaId) list \<Rightarrow>
   'plan AvroConfluentRowInputFormat \<Rightarrow> 'plan AvroConfluentRowInputFormat"
where
  "read_messages compile [] reader = reader"
| "read_messages compile ((getSchema, schema_id) # messages) reader =
     read_messages compile messages
       (snd (getOrCreateDeserializer getSchema compile schema_id reader))"

definition cache_inv :: "'plan AvroConfluentRowInputFormat \<Rightarrow> bool" where
  "cache_inv r \<longleftrightarrow> distinct (compiled r) \<and> set (compiled r) \<subseteq> dom (deserializer_cache r)"

section \<open>Skip logic for named types\<close>

text \<open>
  The header declares \<open>SkipFn createSkipFn(avro::NodePtr root_node)\<close> and the member
  \<open>std::map<avro::Name, SkipFn> symbolic_skip_fn_map\<close>, "Map from name of named Avro type
  (record, enum, fixed) to SkipFn.  This is to avoid infinite recursion when Avro schema
  contains self-references. e.g. LinkedList".  The function body and the schema types of
  the Avro library are not part of the header; they are taken from the specification.
\<close>

type_synonym Name = string

text \<open>
  Modelled from the spec: the Schema Node of section 3, "tagged union over {Primitive(kind),
  Record(ordered list of (field_name, child_node)), Union(ordered list of branch_node),
  Array(element_node), Map(value_node), Enum(symbol list), Fixed(size)}", where
  Record, Enum and Fixed carry their symbolic name.  A schema graph has cycles "only
  through named-type back-references (a Record field may reference an ancestor Record by
  name)": \<open>Named_Reference\<close> is such a back-reference, and the named types of a graph are
  given as a table from symbolic name to node.
\<close>

datatype Schema_Node =
    Primitive_Node string
  | Record_Node Name "(string \<times> Schema_Node) list"
  | Union_Node "Schema_Node list"
  | Array_Node Schema_Node
  | Map_Node Schema_Node
  | Enum_Node Name "string list"
  | Fixed_Node Name nat
  | Named_Reference Name

text \<open>
  Modelled from the spec: what a compiled skip operation does, as data instead of a
  closure.  \<open>Skip_Named\<close> is the operation that points back to the entry of the memo
  table for a name and runs whatever that entry holds when a row is skipped.
\<close>

datatype Skip_Logic =
    Skip_Primitive string
  | Skip_Fields "Skip_Logic list"
  | Skip_Branches "Skip_Logic list"
  | Skip_Items Skip_Logic
  | Skip_Entries Skip_Logic
  | Skip_Enum
  | Skip_Fixed nat
  | Skip_Named Name

text \<open>
  Modelled from the spec: an entry of the memo table is "in-progress (or completed)"
  (section 4.1).
\<close>

datatype Memo_Entry = In_Progress | Built Skip_Logic

text \<open>A schema whose table of named types does not fit its references cannot be compiled.\<close>

datatype Schema_Error = Unknown_Name Name | Not_A_Named_Type Name

text \<open>
  The compiler state: the member \<open>symbolic_skip_fn_map\<close>, and (not a member of the class)
  the history of the names whose skip logic was compiled, one entry per compilation.
\<close>

record Skip_Compiler =
  symbolic_skip_fn_map :: "Name \<rightharpoonup> Memo_Entry"
  skip_compilations :: "Name list"

definition new_skip_compiler :: Skip_Compiler where
  "new_skip_compiler = \<lparr>symbolic_skip_fn_map = Map.empty, skip_compilations = []\<rparr>"

text \<open>
  A compilation runs out of fuel (\<open>None\<close>), or rejects the schema, or gives its result and
  the compiler state after it.
\<close>

type_synonym 'a Compiled = "(Schema_Error + 'a \<times> Skip_Compiler) option"

definition map_compiled :: "('a \<Rightarrow> 'b) \<Rightarrow> 'a Compiled \<Rightarrow> 'b Compiled" where
  "map_compiled f r =
     (case r of
        None \<Rightarrow> None
      | Some (Inl e) \<Rightarrow> Some (Inl e)
      | Some (Inr (a, st)) \<Rightarrow> Some (Inr (f a, st)))"

text \<open>
  Modelled from the spec: the two updates of the memo table around the compilation of a
  named type.  Section 9: the entry is "inserted before recursing into children so a
  re-encountered name reuses/points back to the in-progress entry"; when the children
  are done the entry holds the compiled logic.
\<close>

definition begin_named :: "Name \<Rightarrow> Skip_Compiler \<Rightarrow> Skip_Compiler" where
  "begin_named name st =
     st\<lparr>symbolic_skip_fn_map := (symbolic_skip_fn_map st)(name \<mapsto> In_Progress),
        skip_compilations := skip_compilations st @ [name]\<rparr>"

definition finish_named :: "Name \<Rightarrow> Skip_Logic \<Rightarrow> Skip_Compiler \<Rightarrow> Skip_Compiler" where
  "finish_named name body st =
     st\<lparr>symbolic_skip_fn_map := (symbolic_skip_fn_map st)(name \<mapsto> Built body)\<rparr>"

text \<open>
  Modelled from the spec: the body of \<open>AvroDeserializer::createSkipFn\<close>, which the header
  only declares.  Sections 4.1 and 9 of the specification: the skip logic of a node is
  built from the skip logic of its children; for "a named type (Record/Enum/Fixed)
  already present in the memoization table (by symbolic name)" the cached entry is reused
  "instead of recursing again"; otherwise the name is entered into the table before the
  children are compiled.  A back-reference to a name that has no entry yet is resolved in
  the table of named types \<open>types\<close> and compiled as that named type.  Nothing in the
  specification bounds the recursion, so the model recurses under a fuel counter;
  that enough fuel always exists is a theorem below, not an assumption.
\<close>

fun createSkipFn ::
    "nat \<Rightarrow> (Name \<times> Schema_Node) list \<Rightarrow> Schema_Node \<Rightarrow> Skip_Compiler \<Rightarrow> Skip_Logic Compiled"
  and createSkipFns ::
    "nat \<Rightarrow> (Name \<times> Schema_Node) list \<Rightarrow> Schema_Node list \<Rightarrow> Skip_Compiler \<Rightarrow> Skip_Logic list Compiled"
  and createNamedSkipFn ::
    "nat \<Rightarrow> (Name \<times> Schema_Node) list \<Rightarrow> Name \<Rightarrow> Schema_Node \<Rightarrow> Skip_Compiler \<Rightarrow> Skip_Logic Compiled"
where
  "createSkipFn 0 types node st = None"
| "createSkipFn (Suc fuel) types (Primitive_Node kind) st = Some (Inr (Skip_Primitive kind, st))"
| "createSkipFn (Suc fuel) types (Union_Node branches) st =
     map_compiled Skip_Branches (createSkipFns fuel types branches st)"
| "createSkipFn (Suc fuel) types (Array_Node element) st =
     map_compiled Skip_Items (createSkipFn fuel types element st)"
| "createSkipFn (Suc fuel) types (Map_Node val) st =
     map_compiled Skip_Entries (createSkipFn fuel types val st)"
| "createSkipFn (Suc fuel) types (Record_Node name members) st =
     createNamedSkipFn fuel types name (Record_Node name members) st"
| "createSkipFn (Suc fuel) types (Enum_Node name symbols) st =
     createNamedSkipFn fuel types name (Enum_Node name symbols) st"
| "createSkipFn (Suc fuel) types (Fixed_Node name n) st =
     createNamedSkipFn fuel types name (Fixed_Node name n) st"
| "createSkipFn (Suc fuel) types (Named_Reference name) st =
     (case symbolic_skip_fn_map st name of
        Some entry \<Rightarrow> Some (Inr (Skip_Named name, st))
      | None \<Rightarrow>
          (case map_of types name of
             None \<Rightarrow> Some (Inl (Unknown_Name name))
           | Some node \<Rightarrow> createNamedSkipFn fuel types name node st))"
| "createSkipFns fuel types [] st = Some (Inr ([], st))"
| "createSkipFns fuel types (node # nodes) st =
     (case createSkipFn fuel types node st of
        None \<Rightarrow> None
      | Some (Inl e) \<Rightarrow> Some (Inl e)
      | Some (Inr (skip, st')) \<Rightarrow> map_compiled ((#) skip) (createSkipFns fuel types nodes st'))"
| "createNamedSkipFn fuel types name node st =
     (case symbolic_skip_fn_map st name of
        Some entry \<Rightarrow> Some (Inr (Skip_Named name, st))
      | None \<Rightarrow>
          (case
             (case node of
                Record_Node n members \<Rightarrow>
                  map_compiled Skip_Fields
                    (createSkipFns fuel types (map snd members) (begin_named name st))
              | Enum_Node n symbols \<Rightarrow> Some (Inr (Skip_Enum, begin_named name st))
              | Fixed_Node n k \<Rightarrow> Some (Inr (Skip_Fixed k, begin_named name st))
              | _ \<Rightarrow> Some (Inl (Not_A_Named_Type name)))
           of
             None \<Rightarrow> None
           | Some (Inl e) \<Rightarrow> Some (Inl e)
           | Some (Inr (body, st')) \<Rightarrow> Some (Inr (Skip_Named name, finish_named name body st'))))"

text \<open>
  The fuel that always suffices.  It depends on the schema alone: the size of the node
  and the sizes of the named types.
\<close>

definition skip_fuel :: "(Name \<times> Schema_Node) list \<Rightarrow> Schema_Node \<Rightarrow> nat" where
  "skip_fuel types node = Suc (size node + sum_list (map (\<lambda>(n, d). Suc (size d)) types))"

text \<open>
  Notions for the proofs: the invariant tying the history to the table, the growth of the
  table from one state to a later one, and the sizes of the named types that have no
  entry yet.
\<close>

definition memo_inv :: "Skip_Compiler \<Rightarrow> bool" where
  "memo_inv st \<longleftrightarrow>
     distinct (skip_compilations st) \<and> set (skip_compilations st) \<subseteq> dom (symbolic_skip_fn_map st)"

definition grown :: "Skip_Compiler \<Rightarrow> Skip_Compiler \<Rightarrow> bool" where
  "grown st st' \<longleftrightarrow>
     dom (symbolic_skip_fn_map st) \<subseteq> dom (symbolic_skip_fn_map st') \<and> (memo_inv st \<longrightarrow> memo_inv st')"

definition pending :: "(Name \<times> Schema_Node) list \<Rightarrow> Skip_Compiler \<Rightarrow> nat" where
  "pending types st =
     sum_list (map (\<lambda>(n, d). Suc (size d))
       (filter (\<lambda>(n, d). symbolic_skip_fn_map st n = None) types))"

section \<open>Properties of row execution\<close>

subsection \<open>Index conversion\<close>

lemma to_size_t_nonneg: "0 \<le> sint i \<Longrightarrow> to_size_t i = nat (sint i)"
  unfolding to_size_t_def
  using sint_lt [of i] by (simp add: mod_pos_pos_trivial)

lemma to_size_t_example: "to_size_t 3 = 3" "to_size_t (- 1) = 2 ^ 64 - 1"
  by (simp_all add: to_size_t_def)

subsection \<open>Union dispatch\<close>

text \<open>
  C1.  Whenever the decoder hands a Union action a discriminant that is not below the
  number of its branch actions, \<open>execute\<close> throws the \<open>INCORRECT_DATA\<close> exception
  "Union index out of boundary".  No branch runs: of the environment only the decoder has
  moved, past the discriminant.  In particular the outcome is not undefined behaviour.
\<close>

theorem union_index_out_of_boundary:
  assumes "decodeUnionIndex (decoder env) = (Inr index, d)"
    and "length actions \<le> unat index"
  shows "execute decodeUnionIndex (unionAction actions) env =
           Thrown (Exception ''Union index out of boundary'' INCORRECT_DATA) (env\<lparr>decoder := d\<rparr>)"
  using assms by simp

theorem union_index_out_of_boundary_witness:
  "(\<lambda>d. (Inr 2, tl d)) (decoder \<lparr>columns = [0::nat], decoder = [4::nat, 7], ext = \<lparr>read_columns = [False]\<rparr>\<rparr>)
     = (Inr (2 :: 64 word), [7]) \<and>
   length [Noop, Skip (\<lambda>d. (None, tl d)) :: (nat, nat list) Action] \<le> unat (2 :: 64 word) \<and>
   execute (\<lambda>d. (Inr 2, tl d)) (unionAction [Noop, Skip (\<lambda>d. (None, tl d))])
      \<lparr>columns = [0::nat], decoder = [4::nat, 7], ext = \<lparr>read_columns = [False]\<rparr>\<rparr> =
    Thrown (Exception ''Union index out of boundary'' INCORRECT_DATA)
      \<lparr>columns = [0], decoder = [7], ext = \<lparr>read_columns = [False]\<rparr>\<rparr>"
  using union_index_out_of_boundary
    [of "\<lambda>d. (Inr 2, tl d)"
        "\<lparr>columns = [0::nat], decoder = [4::nat, 7], ext = \<lparr>read_columns = [False]\<rparr>\<rparr>"
        2 "[7]" "[Noop, Skip (\<lambda>d. (None, tl d))]"]
  by simp

subsection \<open>Deserialize\<close>

text \<open>
  C5.  A Deserialize action bound to column \<open>i\<close> (a position that the columns and the
  bitmap have) calls its decode operation on that column and the decoder.  When the
  operation returns, \<open>execute\<close> returns too: column \<open>i\<close> holds what the operation made of
  it and no other column changed, the decoder is where the operation left it, and the
  written flag of column \<open>i\<close> is set, the other flags being as before.
\<close>

theorem deserialize_writes_column_and_flag:
  assumes "to_size_t i < length (columns env)"
    and "to_size_t i < length (read_columns (ext env))"
    and "deserialize_fn (columns env ! to_size_t i) (decoder env) = (None, c, d)"
  shows "\<exists>env'. execute decodeUnionIndex (Deserialize i deserialize_fn) env = Returned env' \<and>
           columns env' = (columns env)[to_size_t i := c] \<and>
           decoder env' = d \<and>
           read_columns (ext env') = (read_columns (ext env))[to_size_t i := True] \<and>
           read_columns (ext env') ! to_size_t i"
  using assms by simp

theorem deserialize_writes_column_and_flag_witness:
  "to_size_t 1 < length [[], [] :: nat list] \<and>
   to_size_t 1 < length [False, False] \<and>
   (\<lambda>c d. (None, c @ [hd d], tl d)) ([[], [] :: nat list] ! to_size_t 1) [5 :: nat, 6] = (None, [5], [6]) \<and>
   execute (\<lambda>d. (Inr 0, d)) (Deserialize 1 (\<lambda>c d. (None, c @ [hd d], tl d)))
       \<lparr>columns = [[], []], decoder = [5 :: nat, 6], ext = \<lparr>read_columns = [False, False]\<rparr>\<rparr> =
     Returned \<lparr>columns = [[], [5]], decoder = [6], ext = \<lparr>read_columns = [False, True]\<rparr>\<rparr>"
  using deserialize_writes_column_and_flag
    [of 1 "\<lparr>columns = [[], []], decoder = [5 :: nat, 6], ext = \<lparr>read_columns = [False, False]\<rparr>\<rparr>"
        "\<lambda>c d. (None, c @ [hd d], tl d)" "[5]" "[6]" "\<lambda>d. (Inr 0, d)"]
  by (simp add: to_size_t_def)

text \<open>
  C10.  When the decode operation of a Deserialize action throws, \<open>execute\<close> throws the
  same exception and the row extension is untouched: every written flag, that of the
  target column included, has the value it had before the action.
\<close>

theorem failed_deserialize_keeps_flags:
  assumes "to_size_t i < length (columns env)"
    and "deserialize_fn (columns env ! to_size_t i) (decoder env) = (Some e, c, d)"
  shows "\<exists>env'. execute decodeUnionIndex (Deserialize i deserialize_fn) env = Thrown e env' \<and>
           ext env' = ext env"
  using assms by simp

theorem failed_deserialize_keeps_flags_witness:
  "to_size_t 0 < length [[] :: nat list] \<and>
   (\<lambda>c d. (Some (Foreign_Exception ''EOF''), c, d)) ([[] :: nat list] ! to_size_t 0) ([] :: nat list)
      = (Some (Foreign_Exception ''EOF''), [], []) \<and>
   execute (\<lambda>d. (Inr 0, d)) (Deserialize 0 (\<lambda>c d. (Some (Foreign_Exception ''EOF''), c, d)))
       \<lparr>columns = [[] :: nat list], decoder = [] :: nat list, ext = \<lparr>read_columns = [False]\<rparr>\<rparr> =
     Thrown (Foreign_Exception ''EOF'')
       \<lparr>columns = [[]], decoder = [], ext = \<lparr>read_columns = [False]\<rparr>\<rparr>"
  using failed_deserialize_keeps_flags
    [of 0 "\<lparr>columns = [[] :: nat list], decoder = [] :: nat list, ext = \<lparr>read_columns = [False]\<rparr>\<rparr>"
        "\<lambda>c d. (Some (Foreign_Exception ''EOF''), c, d)" "Foreign_Exception ''EOF''" "[]" "[]"
        "\<lambda>d. (Inr 0, d)"]
  by (simp add: to_size_t_def)

subsection \<open>Record\<close>

lemma execute_each_append:
  "execute_each decodeUnionIndex (xs @ ys) env =
     (case execute_each decodeUnionIndex xs env of
        Returned env' \<Rightarrow> execute_each decodeUnionIndex ys env'
      | Thrown e env' \<Rightarrow> Thrown e env'
      | Undefined_Behaviour \<Rightarrow> Undefined_Behaviour)"
  by (induction xs arbitrary: env) (auto split: outcome.splits)

lemma execute_upto_take:
  "k \<le> length actions \<Longrightarrow>
     execute_upto decodeUnionIndex actions k env = execute_each decodeUnionIndex (take k actions) env"
proof (induction k)
  case 0
  then show ?case by simp
next
  case (Suc k)
  then have "take (Suc k) actions = take k actions @ [actions ! k]"
    by (simp add: take_Suc_conv_app_nth)
  with Suc show ?case
    by (simp add: execute_each_append split: outcome.splits)
qed

lemma execute_upto_Suc_Returned:
  assumes "execute_upto decodeUnionIndex actions (Suc k) env = Returned e'"
  shows "\<exists>e. execute_upto decodeUnionIndex actions k env = Returned e \<and>
             execute decodeUnionIndex (actions ! k) e = Returned e'"
  using assms by (auto split: outcome.splits)

lemma execute_upto_prefix_Returned:
  assumes "execute_upto decodeUnionIndex actions n env = Returned e'" and "k \<le> n"
  shows "\<exists>e. execute_upto decodeUnionIndex actions k env = Returned e"
  using assms
proof (induction n arbitrary: e')
  case 0
  then show ?case by simp
next
  case (Suc n)
  show ?case
  proof (cases "k = Suc n")
    case True
    with Suc.prems show ?thesis by blast
  next
    case False
    with Suc.prems have "k \<le> n" by simp
    moreover from execute_upto_Suc_Returned [OF Suc.prems(1)]
    obtain e where "execute_upto decodeUnionIndex actions n env = Returned e" by blast
    ultimately show ?thesis using Suc.IH by blast
  qed
qed

lemma execute_each_skips:
  "execute_each decodeUnionIndex (map Skip skip_fns) env =
     (case skip_each skip_fns (decoder env) of
        (None, d) \<Rightarrow> Returned (env\<lparr>decoder := d\<rparr>)
      | (Some e, d) \<Rightarrow> Thrown e (env\<lparr>decoder := d\<rparr>))"
  by (induction skip_fns arbitrary: env) (auto split: prod.splits option.splits)

lemma skip_each_all_return:
  "\<forall>f \<in> set skip_fns. \<forall>d. fst (f d) = None \<Longrightarrow>
     skip_each skip_fns d = (None, fold (\<lambda>f d. snd (f d)) skip_fns d)"
proof (induction skip_fns arbitrary: d)
  case Nil
  then show ?case by simp
next
  case (Cons f fs)
  then have "fst (f d) = None" by simp
  then obtain d' where "f d = (None, d')" by (cases "f d") auto
  with Cons show ?case by simp
qed

text \<open>
  C6.  Executing a Record action is executing its children at positions
  \<open>0, 1, \<dots>, length actions - 1\<close>, in this order, each one once and on the environment
  the previous one left.  When the Record returns, every child was executed and returned.
  On children whose effect is known the order and the count show in the result: a Record
  of Skip actions leaves the decoder as its skip operations, applied one after the other
  in the stored order, leave it; when none of them throws, this is each operation applied
  exactly once.  A child that throws ends the row: the exception leaves the loop and the
  children after it are not executed.
\<close>

theorem record_executes_children_in_order:
  "execute decodeUnionIndex (recordAction actions) env =
     execute_upto decodeUnionIndex actions (length actions) env \<and>
   (execute decodeUnionIndex (recordAction actions) env = Returned env' \<longrightarrow>
      (\<forall>k < length actions. \<exists>e e'.
          execute_upto decodeUnionIndex actions k env = Returned e \<and>
          execute decodeUnionIndex (actions ! k) e = Returned e' \<and>
          execute_upto decodeUnionIndex actions (Suc k) env = Returned e')) \<and>
   execute decodeUnionIndex (recordAction (map Skip skip_fns)) env =
     (case skip_each skip_fns (decoder env) of
        (None, d) \<Rightarrow> Returned (env\<lparr>decoder := d\<rparr>)
      | (Some e, d) \<Rightarrow> Thrown e (env\<lparr>decoder := d\<rparr>)) \<and>
   ((\<forall>f \<in> set skip_fns. \<forall>d. fst (f d) = None) \<longrightarrow>
      execute decodeUnionIndex (recordAction (map Skip skip_fns)) env =
        Returned (env\<lparr>decoder := fold (\<lambda>f d. snd (f d)) skip_fns (decoder env)\<rparr>))"
proof (intro conjI impI allI)
  show eq: "execute decodeUnionIndex (recordAction actions) env =
     execute_upto decodeUnionIndex actions (length actions) env"
    by (simp add: execute_upto_take)
  show "execute decodeUnionIndex (recordAction (map Skip skip_fns)) env =
     (case skip_each skip_fns (decoder env) of
        (None, d) \<Rightarrow> Returned (env\<lparr>decoder := d\<rparr>)
      | (Some e, d) \<Rightarrow> Thrown e (env\<lparr>decoder := d\<rparr>))"
    by (simp add: execute_each_skips)
  {
    fix k
    assume r: "execute decodeUnionIndex (recordAction actions) env = Returned env'"
      and k: "k < length actions"
    from r eq have "execute_upto decodeUnionIndex actions (length actions) env = Returned env'"
      by simp
    from execute_upto_prefix_Returned [OF this, of "Suc k"] k
    obtain e' where e': "execute_upto decodeUnionIndex actions (Suc k) env = Returned e'"
      by auto
    from execute_upto_Suc_Returned [OF e'] e'
    show "\<exists>e e'. execute_upto decodeUnionIndex actions k env = Returned e \<and>
            execute decodeUnionIndex (actions ! k) e = Returned e' \<and>
            execute_upto decodeUnionIndex actions (Suc k) env = Returned e'"
      by blast
  }
  {
    assume "\<forall>f \<in> set skip_fns. \<forall>d. fst (f d) = None"
    then show "execute decodeUnionIndex (recordAction (map Skip skip_fns)) env =
        Returned (env\<lparr>decoder := fold (\<lambda>f d. snd (f d)) skip_fns (decoder env)\<rparr>)"
      by (simp add: execute_each_skips skip_each_all_return)
  }
qed

text \<open>
  Two records on the decoder \<open>[5, 6, 7]\<close>.  In the first, a Deserialize for column 0, a
  Skip and a Deserialize for column 1 each take the head of the decoder: column 0 gets 5,
  6 is dropped, column 1 gets 7.  In the second, three skip operations append their
  number to the decoder, which ends in \<open>1, 2, 3\<close>.
\<close>

theorem record_executes_children_in_order_witness:
  "execute (\<lambda>d. (Inr 0, d))
     (recordAction [Deserialize 0 (\<lambda>c d. (None, c @ [hd d], tl d)),
                    Skip (\<lambda>d. (None, tl d)),
                    Deserialize 1 (\<lambda>c d. (None, c @ [hd d], tl d))])
     \<lparr>columns = [[], [] :: nat list], decoder = [5, 6, 7], ext = \<lparr>read_columns = [False, False]\<rparr>\<rparr> =
   Returned \<lparr>columns = [[5], [7]], decoder = [], ext = \<lparr>read_columns = [True, True]\<rparr>\<rparr> \<and>
   execute (\<lambda>d. (Inr 0, d))
     (recordAction [Skip (\<lambda>d. (None, d @ [1 :: nat])), Skip (\<lambda>d. (None, d @ [2])), Skip (\<lambda>d. (None, d @ [3]))])
     \<lparr>columns = [[], [] :: nat list], decoder = [5, 6, 7], ext = \<lparr>read_columns = [False, False]\<rparr>\<rparr> =
   Returned \<lparr>columns = [[], []], decoder = [5, 6, 7, 1, 2, 3], ext = \<lparr>read_columns = [False, False]\<rparr>\<rparr>"
  using record_executes_children_in_order
    [where decodeUnionIndex = "\<lambda>d. (Inr 0, d)"
       and actions = "[Deserialize 0 (\<lambda>c d. (None, c @ [hd d], tl d)),
                       Skip (\<lambda>d. (None, tl d)),
                       Deserialize 1 (\<lambda>c d. (None, c @ [hd d], tl d))]"
       and env = "\<lparr>columns = [[], [] :: nat list], decoder = [5, 6, 7], ext = \<lparr>read_columns = [False, False]\<rparr>\<rparr>"
       and env' = "\<lparr>columns = [[5], [7]], decoder = [], ext = \<lparr>read_columns = [True, True]\<rparr>\<rparr>"
       and skip_fns = "[\<lambda>d. (None, d @ [1 :: nat]), \<lambda>d. (None, d @ [2]), \<lambda>d. (None, d @ [3])]"]
  by (simp add: to_size_t_def)

subsection \<open>Skip and Noop\<close>

text \<open>
  C7.  A Noop action returns the environment as it was.  A Skip action calls its skip
  operation on the decoder and touches nothing else: whether the operation returns or
  throws, the columns and the row extension (the written flags) are as before, and the
  decoder is where the skip operation left it.
\<close>

theorem skip_and_noop_keep_columns_and_flags:
  "execute decodeUnionIndex Noop env = Returned env \<and>
   (\<exists>env'. final_env (execute decodeUnionIndex (Skip skip_fn) env) = Some env' \<and>
       columns env' = columns env \<and> ext env' = ext env \<and>
       decoder env' = snd (skip_fn (decoder env)))"
  by (auto split: prod.splits option.splits)

subsection \<open>The written flags only grow\<close>









section \<open>Properties of the deserializer cache\<close>

lemma cache_inv_step:
  "cache_inv r \<Longrightarrow> cache_inv (snd (getOrCreateDeserializer getSchema compile schema_id r))"
  unfolding cache_inv_def getOrCreateDeserializer_def
  by (auto split: option.splits sum.splits)

lemma cache_inv_read_messages:
  "cache_inv r \<Longrightarrow> cache_inv (read_messages compile messages r)"
  by (induction compile messages r rule: read_messages.induct) (simp_all add: cache_inv_step)

lemma cache_inv_new_reader: "cache_inv new_reader"
  by (simp add: cache_inv_def new_reader_def)

lemma second_lookup_is_cached:
  assumes "getOrCreateDeserializer getSchema compile schema_id r = (Inr plan, r')"
  shows "getOrCreateDeserializer getSchema compile schema_id r' = (Inr plan, r')"
  using assms unfolding getOrCreateDeserializer_def
  by (auto split: option.splits sum.splits)

text \<open>
  C8.  In one reader, whatever sequence of schema identifiers its messages carry and
  however the registry answers, no identifier has its Plan compiled twice.  Once a lookup has returned a Plan, the next
  lookup of the same identifier returns the same Plan and leaves the reader as it is:
  nothing is compiled.  The cache belongs to the reader: a new reader starts with an
  empty one and compiles the Plan of the first identifier it meets, whatever other
  readers hold.
\<close>

theorem plan_cache_compiles_once:
  "distinct (compiled (read_messages compile messages new_reader)) \<and>
   (getOrCreateDeserializer getSchema compile schema_id reader = (Inr plan, reader') \<longrightarrow>
      getOrCreateDeserializer getSchema compile schema_id reader' = (Inr plan, reader')) \<and>
   (getSchema schema_id = Inr schema \<and> compile schema = Inr plan \<longrightarrow>
      getOrCreateDeserializer getSchema compile schema_id new_reader =
        (Inr plan, \<lparr>deserializer_cache = [schema_id \<mapsto> plan], compiled = [schema_id]\<rparr>))"
proof -
  have "cache_inv (read_messages compile messages new_reader)"
    using cache_inv_new_reader by (rule cache_inv_read_messages)
  then have 1: "distinct (compiled (read_messages compile messages new_reader))"
    by (simp add: cache_inv_def)
  have 2: "getOrCreateDeserializer getSchema compile schema_id reader = (Inr plan, reader') \<longrightarrow>
      getOrCreateDeserializer getSchema compile schema_id reader' = (Inr plan, reader')"
    using second_lookup_is_cached [of getSchema compile schema_id reader plan reader'] by blast
  have 3: "getSchema schema_id = Inr schema \<and> compile schema = Inr plan \<longrightarrow>
      getOrCreateDeserializer getSchema compile schema_id new_reader =
        (Inr plan, \<lparr>deserializer_cache = [schema_id \<mapsto> plan], compiled = [schema_id]\<rparr>)"
    by (simp add: getOrCreateDeserializer_def new_reader_def)
  from 1 2 3 show ?thesis by (intro conjI)
qed

text \<open>
  Four messages: identifier 7 while the registry is unavailable, then 7, 9 and 7 again
  with the registry answering.  Plans are compiled for 7 and for 9, once each.
\<close>

theorem plan_cache_compiles_once_witness:
  "compiled (read_messages (\<lambda>s. Inr (Suc s))
      [(\<lambda>i. Inl (Foreign_Exception ''registry unavailable''), 7),
       (\<lambda>i. Inr (unat i), 7), (\<lambda>i. Inr (unat i), 9), (\<lambda>i. Inr (unat i), 7)]
      (new_reader :: nat AvroConfluentRowInputFormat)) = [7, 9] \<and>
   getOrCreateDeserializer (\<lambda>i. Inr (unat i)) (\<lambda>s. Inr (Suc s)) 7 new_reader =
     (Inr 8, \<lparr>deserializer_cache = [7 \<mapsto> 8], compiled = [7]\<rparr>) \<and>
   getOrCreateDeserializer (\<lambda>i. Inr (unat i)) (\<lambda>s. Inr (Suc s)) 7
       \<lparr>deserializer_cache = [7 \<mapsto> 8], compiled = [7]\<rparr> =
     (Inr 8, \<lparr>deserializer_cache = [7 \<mapsto> 8], compiled = [7]\<rparr>)"
  using plan_cache_compiles_once
    [where getSchema = "\<lambda>i. Inr (unat i)" and compile = "\<lambda>s. Inr (Suc s)"
       and messages = "[(\<lambda>i. Inl (Foreign_Exception ''registry unavailable''), 7),
                        (\<lambda>i. Inr (unat i), 7), (\<lambda>i. Inr (unat i), 9), (\<lambda>i. Inr (unat i), 7)]"
       and schema_id = 7 and reader = new_reader and plan = 8
       and reader' = "\<lparr>deserializer_cache = [7 \<mapsto> 8], compiled = [7]\<rparr>" and schema = 7]
  by (simp add: getOrCreateDeserializer_def new_reader_def)

section \<open>Properties of the skip compiler\<close>

lemma grown_refl: "grown st st"
  by (simp add: grown_def)

lemma grown_trans: "grown a b \<Longrightarrow> grown b c \<Longrightarrow> grown a c"
  by (auto simp: grown_def)

lemma grown_begin:
  "symbolic_skip_fn_map st name = None \<Longrightarrow> grown st (begin_named name st)"
  by (auto simp: grown_def memo_inv_def begin_named_def)

lemma grown_finish: "grown st (finish_named name body st)"
  by (auto simp: grown_def memo_inv_def finish_named_def)

lemma map_compiled_Inr:
  "map_compiled f r = Some (Inr (y, st')) \<Longrightarrow> \<exists>x. r = Some (Inr (x, st')) \<and> y = f x"
  by (auto simp: map_compiled_def split: option.splits sum.splits)

lemma map_compiled_None [simp]: "map_compiled f r = None \<longleftrightarrow> r = None"
  by (auto simp: map_compiled_def split: option.splits sum.splits)

lemma compile_grown:
  "createSkipFn fuel types node st = Some (Inr (s, st')) \<Longrightarrow> grown st st'"
  "createSkipFns fuel types nodes st = Some (Inr (ss, st')) \<Longrightarrow> grown st st'"
  "createNamedSkipFn fuel types name node st = Some (Inr (s, st')) \<Longrightarrow> grown st st'"
proof (induction fuel types node st and fuel types nodes st and fuel types name node st
       arbitrary: s st' and ss st' and s st'
       rule: createSkipFn_createSkipFns_createNamedSkipFn.induct)
  case (1 types node st)
  then show ?case by simp
next
  case (2 fuel types kind st)
  then show ?case by (auto simp: grown_refl)
next
  case (3 fuel types branches st)
  then show ?case by (auto dest!: map_compiled_Inr)
next
  case (4 fuel types element st)
  then show ?case by (auto dest!: map_compiled_Inr)
next
  case (5 fuel types val st)
  then show ?case by (auto dest!: map_compiled_Inr)
next
  case (6 fuel types name members st)
  then show ?case by simp
next
  case (7 fuel types name symbols st)
  then show ?case by simp
next
  case (8 fuel types name n st)
  then show ?case by simp
next
  case (9 fuel types name st)
  then show ?case by (auto simp: grown_refl split: option.splits)
next
  case (10 fuel types st)
  then show ?case by (auto simp: grown_refl)
next
  case (11 fuel types node nodes st)
  then show ?case
    by (auto split: option.splits sum.splits dest!: map_compiled_Inr intro: grown_trans)
next
  case (12 fuel types name node st)
  show ?case
  proof (cases "symbolic_skip_fn_map st name")
    case (Some entry)
    with 12 show ?thesis by (auto simp: grown_refl)
  next
    case None
    let ?st1 = "begin_named name st"
    have g1: "grown st ?st1" using None by (rule grown_begin)
    show ?thesis
    proof (cases node)
      case (Record_Node n members)
      with None "12.prems" obtain body st2 where
        b: "createSkipFns fuel types (map snd members) ?st1 = Some (Inr (body, st2))"
        and st': "st' = finish_named name (Skip_Fields body) st2"
        by (auto split: option.splits sum.splits dest!: map_compiled_Inr)
      have "grown ?st1 st2"
        using "12.IH" [OF None Record_Node b] .
      with g1 have "grown st st2" by (rule grown_trans)
      moreover have "grown st2 st'" unfolding st' by (rule grown_finish)
      ultimately show ?thesis by (rule grown_trans)
    next
      case (Enum_Node n symbols)
      with None "12.prems" have "st' = finish_named name Skip_Enum ?st1" by auto
      then have "grown ?st1 st'" by (simp add: grown_finish)
      with g1 show ?thesis by (rule grown_trans)
    next
      case (Fixed_Node n k)
      with None "12.prems" have "st' = finish_named name (Skip_Fixed k) ?st1" by auto
      then have "grown ?st1 st'" by (simp add: grown_finish)
      with g1 show ?thesis by (rule grown_trans)
    qed (use None "12.prems" in auto)
  qed
qed


lemma pending_mono:
  "dom (symbolic_skip_fn_map st) \<subseteq> dom (symbolic_skip_fn_map st') \<Longrightarrow> pending types st' \<le> pending types st"
  unfolding pending_def
  by (induction types) (auto simp: subset_iff domIff)

lemma pending_drop:
  assumes "map_of types name = Some node"
    and "symbolic_skip_fn_map st name = None"
    and "symbolic_skip_fn_map st1 name \<noteq> None"
    and "dom (symbolic_skip_fn_map st) \<subseteq> dom (symbolic_skip_fn_map st1)"
  shows "pending types st1 + Suc (size node) \<le> pending types st"
  using assms(1)
proof (induction types)
  case Nil
  then show ?case by simp
next
  case (Cons a types)
  obtain n d where a: "a = (n, d)" by (cases a)
  show ?case
  proof (cases "n = name")
    case True
    with Cons.prems a have "d = node" by simp
    moreover have "pending types st1 \<le> pending types st"
      using assms(4) by (rule pending_mono)
    ultimately show ?thesis
      using a True assms(2,3) by (auto simp: pending_def)
  next
    case False
    with Cons.prems a have "map_of types name = Some node" by simp
    from Cons.IH [OF this] have "pending types st1 + Suc (size node) \<le> pending types st" .
    moreover have "symbolic_skip_fn_map st1 n = None \<Longrightarrow> symbolic_skip_fn_map st n = None"
      using assms(4) by (auto simp: subset_iff domIff)
    ultimately show ?thesis
      using a by (auto simp: pending_def)
  qed
qed

lemma size_children: "size_list size (map snd ms) \<le> size_list (size_prod (\<lambda>x. 0) size) ms"
  by (induction ms) auto

lemma grown_pending: "grown st st' \<Longrightarrow> pending types st' \<le> pending types st"
  by (simp add: grown_def pending_mono)

lemma enough_fuel:
  "size node + pending types st < fuel \<Longrightarrow> createSkipFn fuel types node st \<noteq> None"
  "size_list size nodes + pending types st < fuel \<Longrightarrow> createSkipFns fuel types nodes st \<noteq> None"
  "(symbolic_skip_fn_map st name = None \<longrightarrow>
      (case node of
         Record_Node n ms \<Rightarrow> size_list size (map snd ms) + pending types (begin_named name st) < fuel
       | _ \<Rightarrow> True)) \<Longrightarrow>
   createNamedSkipFn fuel types name node st \<noteq> None"
proof (induction fuel types node st and fuel types nodes st and fuel types name node st
       rule: createSkipFn_createSkipFns_createNamedSkipFn.induct)
  case (1 types node st)
  then show ?case by simp
next
  case (2 fuel types kind st)
  then show ?case by simp
next
  case (3 fuel types branches st)
  then show ?case by simp
next
  case (4 fuel types element st)
  then show ?case by simp
next
  case (5 fuel types val st)
  then show ?case by simp
next
  case (6 fuel types name members st)
  have "pending types (begin_named name st) \<le> pending types st"
    by (rule pending_mono) (auto simp: begin_named_def)
  with "6.prems" size_children [of members]
  have "size_list size (map snd members) + pending types (begin_named name st) < fuel"
    by simp
  then show ?case
    using "6.IH" by simp
next
  case (7 fuel types name symbols st)
  then show ?case by simp
next
  case (8 fuel types name n st)
  then show ?case by simp
next
  case (9 fuel types name st)
  show ?case
  proof (cases "symbolic_skip_fn_map st name")
    case (Some entry)
    then show ?thesis by simp
  next
    case None
    show ?thesis
    proof (cases "map_of types name")
      case no: None
      with None show ?thesis by simp
    next
      case (Some node)
      have "case node of
              Record_Node n ms \<Rightarrow> size_list size (map snd ms) + pending types (begin_named name st) < fuel
            | _ \<Rightarrow> True"
      proof (cases node)
        case (Record_Node n ms)
        have "pending types (begin_named name st) + Suc (size node) \<le> pending types st"
          using Some None by (rule pending_drop) (auto simp: begin_named_def)
        with "9.prems" Record_Node size_children [of ms] show ?thesis by simp
      qed simp_all
      then have "createNamedSkipFn fuel types name node st \<noteq> None"
        using "9.IH" [OF None Some] by blast
      with None Some show ?thesis by simp
    qed
  qed
next
  case (10 fuel types st)
  then show ?case by simp
next
  case (11 fuel types node nodes st)
  from "11.prems" have "size node + pending types st < fuel" by simp
  from "11.IH"(1) [OF this] obtain r where r: "createSkipFn fuel types node st = Some r"
    by blast
  show ?case
  proof (cases r)
    case (Inl e)
    with r show ?thesis by simp
  next
    case (Inr p)
    obtain skip st' where p: "p = (skip, st')" by (cases p)
    have "grown st st'" using r Inr p compile_grown(1) by blast
    then have "pending types st' \<le> pending types st" by (rule grown_pending)
    with "11.prems" have "size_list size nodes + pending types st' < fuel" by simp
    then have "createSkipFns fuel types nodes st' \<noteq> None"
      using "11.IH"(2) [OF r Inr p [symmetric]] by blast
    with r Inr p show ?thesis
      by simp
  qed
next
  case (12 fuel types name node st)
  show ?case
  proof (cases "symbolic_skip_fn_map st name")
    case (Some entry)
    then show ?thesis by simp
  next
    case None
    show ?thesis
    proof (cases node)
      case (Record_Node n ms)
      with None "12.prems"
      have "size_list size (map snd ms) + pending types (begin_named name st) < fuel" by simp
      then have "createSkipFns fuel types (map snd ms) (begin_named name st) \<noteq> None"
        using "12.IH" [OF None Record_Node] by simp
      then obtain r where "createSkipFns fuel types (map snd ms) (begin_named name st) = Some r"
        by blast
      with None Record_Node show ?thesis
        by (auto simp: map_compiled_def split: sum.splits)
    qed (use None in simp_all)
  qed
qed



lemma map_compiled_mono:
  "map_compiled f r = Some y \<Longrightarrow> (\<And>x. r = Some x \<Longrightarrow> r' = Some x) \<Longrightarrow> map_compiled f r' = Some y"
  by (cases r) (auto simp: map_compiled_def)

lemma more_fuel:
  "createSkipFn fuel types node st = Some r \<Longrightarrow> createSkipFn (Suc fuel) types node st = Some r"
  "createSkipFns fuel types nodes st = Some rs \<Longrightarrow> createSkipFns (Suc fuel) types nodes st = Some rs"
  "createNamedSkipFn fuel types name node st = Some r \<Longrightarrow>
     createNamedSkipFn (Suc fuel) types name node st = Some r"
proof (induction fuel types node st and fuel types nodes st and fuel types name node st
       arbitrary: r and rs and r
       rule: createSkipFn_createSkipFns_createNamedSkipFn.induct)
  case (1 types node st)
  then show ?case by simp
next
  case (2 fuel types kind st)
  then show ?case by simp
next
  case (3 fuel types branches st)
  then show ?case by (auto elim: map_compiled_mono)
next
  case (4 fuel types element st)
  then show ?case by (auto elim: map_compiled_mono)
next
  case (5 fuel types val st)
  then show ?case by (auto elim: map_compiled_mono)
next
  case (6 fuel types name members st)
  then show ?case by simp
next
  case (7 fuel types name symbols st)
  then show ?case by simp
next
  case (8 fuel types name n st)
  then show ?case by simp
next
  case (9 fuel types name st)
  then show ?case by (auto split: option.splits simp del: createNamedSkipFn.simps)
next
  case (10 fuel types st)
  then show ?case by simp
next
  case (11 fuel types node nodes st)
  then show ?case
    by (auto split: option.splits sum.splits elim: map_compiled_mono)
next
  case (12 fuel types name node st)
  show ?case
  proof (cases "symbolic_skip_fn_map st name")
    case (Some entry)
    with 12 show ?thesis by simp
  next
    case None
    show ?thesis
    proof (cases node)
      case (Record_Node n ms)
      with None "12.prems" obtain x where
        x: "createSkipFns fuel types (map snd ms) (begin_named name st) = Some x"
        by (cases "createSkipFns fuel types (map snd ms) (begin_named name st)")
           (auto simp: map_compiled_def)
      from "12.IH" [OF None Record_Node x]
      have "createSkipFns (Suc fuel) types (map snd ms) (begin_named name st) = Some x" .
      with x None Record_Node "12.prems" show ?thesis by simp
    qed (use None "12.prems" in auto)
  qed
qed

lemma fuel_mono:
  assumes "createSkipFn fuel types node st = Some r" and "fuel \<le> fuel'"
  shows "createSkipFn fuel' types node st = Some r"
proof -
  have "createSkipFn (fuel + k) types node st = Some r" for k
    by (induction k) (simp_all add: assms(1) more_fuel(1))
  from this [of "fuel' - fuel"] assms(2) show ?thesis by simp
qed

lemma pending_le_total: "pending types st \<le> sum_list (map (\<lambda>(n, d). Suc (size d)) types)"
  unfolding pending_def by (induction types) auto

lemma new_skip_compiler_inv: "memo_inv new_skip_compiler"
  by (simp add: memo_inv_def new_skip_compiler_def)

text \<open>
  C4.  The skip logic of any node of any schema graph, self-referential or not, is
  compiled within a recursion depth that the schema alone determines (\<open>skip_fuel\<close>), from
  any state of the memo table: the compilation returns, and more fuel gives the same
  result.  Starting from the empty table,
  no name has its skip logic compiled twice.  A name that already has an entry, in
  progress or completed, is not compiled again: a back-reference to it, or the named
  record itself, yields the operation that points to the entry, and the compiler state
  is unchanged.
\<close>

theorem skip_compilation_terminates_once:
  "(skip_fuel types node \<le> fuel \<longrightarrow>
      (\<exists>r. createSkipFn (skip_fuel types node) types node st = Some r \<and>
           createSkipFn fuel types node st = Some r)) \<and>
   (createSkipFn fuel' types node new_skip_compiler = Some (Inr (skip, st')) \<longrightarrow>
      distinct (skip_compilations st')) \<and>
   (symbolic_skip_fn_map st name \<noteq> None \<longrightarrow>
      createSkipFn (Suc fuel') types (Named_Reference name) st = Some (Inr (Skip_Named name, st)) \<and>
      createSkipFn (Suc fuel') types (Record_Node name members) st = Some (Inr (Skip_Named name, st)))"
proof (intro conjI impI)
  assume le: "skip_fuel types node \<le> fuel"
  have "size node + pending types st < skip_fuel types node"
    using pending_le_total [of types st] by (simp add: skip_fuel_def)
  then have "createSkipFn (skip_fuel types node) types node st \<noteq> None"
    by (rule enough_fuel(1))
  then obtain r where r: "createSkipFn (skip_fuel types node) types node st = Some r"
    by blast
  from fuel_mono [OF r le] r
  show "\<exists>r. createSkipFn (skip_fuel types node) types node st = Some r \<and>
             createSkipFn fuel types node st = Some r"
    by blast
next
  assume "createSkipFn fuel' types node new_skip_compiler = Some (Inr (skip, st'))"
  then have "grown new_skip_compiler st'" by (rule compile_grown(1))
  with new_skip_compiler_inv have "memo_inv st'" by (simp add: grown_def)
  then show "distinct (skip_compilations st')" by (simp add: memo_inv_def)
next
  assume "symbolic_skip_fn_map st name \<noteq> None"
  then show "createSkipFn (Suc fuel') types (Named_Reference name) st = Some (Inr (Skip_Named name, st))"
    by auto
next
  assume "symbolic_skip_fn_map st name \<noteq> None"
  then show "createSkipFn (Suc fuel') types (Record_Node name members) st = Some (Inr (Skip_Named name, st))"
    by auto
qed

text \<open>
  The linked list of the header's comment: a record \<open>LinkedList\<close> whose field \<open>next\<close> is
  either null or a \<open>LinkedList\<close> again.  Skipping the type of \<open>next\<close> compiles the record
  once and ties the inner reference back to its entry.
\<close>

theorem skip_compilation_terminates_once_witness:
  "(\<exists>r. createSkipFn
           (skip_fuel
              [(''LinkedList'', Record_Node ''LinkedList''
                 [(''value'', Primitive_Node ''long''),
                  (''next'', Union_Node [Primitive_Node ''null'', Named_Reference ''LinkedList''])])]
              (Union_Node [Primitive_Node ''null'', Named_Reference ''LinkedList'']))
           [(''LinkedList'', Record_Node ''LinkedList''
              [(''value'', Primitive_Node ''long''),
               (''next'', Union_Node [Primitive_Node ''null'', Named_Reference ''LinkedList''])])]
           (Union_Node [Primitive_Node ''null'', Named_Reference ''LinkedList''])
           new_skip_compiler = Some r) \<and>
   createSkipFn (Suc (Suc (Suc (Suc 0))))
     [(''LinkedList'', Record_Node ''LinkedList''
        [(''value'', Primitive_Node ''long''),
         (''next'', Union_Node [Primitive_Node ''null'', Named_Reference ''LinkedList''])])]
     (Union_Node [Primitive_Node ''null'', Named_Reference ''LinkedList''])
     new_skip_compiler =
   Some (Inr (Skip_Branches [Skip_Primitive ''null'', Skip_Named ''LinkedList''],
     \<lparr>symbolic_skip_fn_map = [''LinkedList'' \<mapsto>
          Built (Skip_Fields [Skip_Primitive ''long'',
                   Skip_Branches [Skip_Primitive ''null'', Skip_Named ''LinkedList'']])],
      skip_compilations = [''LinkedList'']\<rparr>)) \<and>
   distinct (skip_compilations
     \<lparr>symbolic_skip_fn_map = [''LinkedList'' \<mapsto>
          Built (Skip_Fields [Skip_Primitive ''long'',
                   Skip_Branches [Skip_Primitive ''null'', Skip_Named ''LinkedList'']])],
      skip_compilations = [''LinkedList'']\<rparr>) \<and>
   createSkipFn (Suc (Suc (Suc (Suc (Suc 0)))))
     [(''LinkedList'', Record_Node ''LinkedList''
        [(''value'', Primitive_Node ''long''),
         (''next'', Union_Node [Primitive_Node ''null'', Named_Reference ''LinkedList''])])]
     (Named_Reference ''LinkedList'')
     (begin_named ''LinkedList'' new_skip_compiler) =
   Some (Inr (Skip_Named ''LinkedList'', begin_named ''LinkedList'' new_skip_compiler))"
proof -
  let ?types = "[(''LinkedList'', Record_Node ''LinkedList''
                   [(''value'', Primitive_Node ''long''),
                    (''next'', Union_Node [Primitive_Node ''null'', Named_Reference ''LinkedList''])])]"
  let ?node = "Union_Node [Primitive_Node ''null'', Named_Reference ''LinkedList'']"
  let ?skip = "Skip_Branches [Skip_Primitive ''null'', Skip_Named ''LinkedList'']"
  let ?st' = "\<lparr>symbolic_skip_fn_map = [''LinkedList'' \<mapsto>
                  Built (Skip_Fields [Skip_Primitive ''long'',
                           Skip_Branches [Skip_Primitive ''null'', Skip_Named ''LinkedList'']])],
               skip_compilations = [''LinkedList'']\<rparr>"
  have run: "createSkipFn (Suc (Suc (Suc (Suc 0)))) ?types ?node new_skip_compiler
               = Some (Inr (?skip, ?st'))"
    by (simp add: new_skip_compiler_def begin_named_def finish_named_def map_compiled_def)
  have first: "(\<exists>r. createSkipFn (skip_fuel ?types ?node) ?types ?node new_skip_compiler = Some r) \<and>
      (createSkipFn (Suc (Suc (Suc (Suc 0)))) ?types ?node new_skip_compiler = Some (Inr (?skip, ?st'))
         \<longrightarrow> distinct (skip_compilations ?st'))"
    using skip_compilation_terminates_once
      [where types = ?types and node = ?node and fuel = "skip_fuel ?types ?node"
         and st = new_skip_compiler and fuel' = "Suc (Suc (Suc (Suc 0)))"
         and skip = ?skip and st' = ?st' and name = "''LinkedList''" and members = "[]"]
    by simp
  have entry: "symbolic_skip_fn_map (begin_named ''LinkedList'' new_skip_compiler) ''LinkedList'' \<noteq> None"
    by (simp add: begin_named_def)
  have reuse: "createSkipFn (Suc (Suc (Suc (Suc (Suc 0))))) ?types (Named_Reference ''LinkedList'')
                 (begin_named ''LinkedList'' new_skip_compiler)
               = Some (Inr (Skip_Named ''LinkedList'', begin_named ''LinkedList'' new_skip_compiler))"
    using skip_compilation_terminates_once
      [where types = ?types and node = ?node and fuel = 0
         and st = "begin_named ''LinkedList'' new_skip_compiler"
         and fuel' = "Suc (Suc (Suc (Suc 0)))"
         and skip = ?skip and st' = ?st' and name = "''LinkedList''" and members = "[]"]
      entry
    by blast
  from first run reuse show ?thesis by blast
qed

end
